theory Spec2Isabelle
  imports Main "HOL-Library.Sublist"
begin

section \<open>Python values used by \<open>check_with_openai.py\<close>\<close>

text \<open>
  A Python \<open>str\<close> is a sequence of code points. The model uses \<open>string\<close>, whose
  characters are the code points 0..255 (Latin-1). The exceptions that the module and
  the builtins it calls can raise are values of \<open>py_exn\<close>; all of them are instances of
  Python's \<open>Exception\<close>, the class that the \<open>except Exception\<close> clauses catch.
\<close>

datatype py_exn =
  ValueError | AttributeError | KeyError | TypeError | JSONDecodeError | APIError string

subsection \<open>\<open>str.lower\<close>, \<open>str.split\<close>, \<open>str.join\<close>\<close>

text \<open>
  \<open>str.split()\<close> without arguments splits on runs of whitespace and drops empty words.
  Below code point 256 the whitespace characters are 9..13, 28..32, 133 and 160.
\<close>

definition isspace :: "char \<Rightarrow> bool" where
  "isspace c =
     (let n = (of_char c :: nat)
      in (9 \<le> n \<and> n \<le> 13) \<or> (28 \<le> n \<and> n \<le> 32) \<or> n = 133 \<or> n = 160)"

text \<open>
  Below code point 256 the upper-case letters are 65..90 and 192..222 without 215
  (the multiplication sign); each has its lower-case letter 32 places further.
\<close>

definition lower_char :: "char \<Rightarrow> char" where
  "lower_char c =
     (let n = (of_char c :: nat)
      in if (65 \<le> n \<and> n \<le> 90) \<or> (192 \<le> n \<and> n \<le> 222 \<and> n \<noteq> 215)
         then char_of (n + 32) else c)"

definition lower :: "string \<Rightarrow> string" where
  "lower s = map lower_char s"

function str_split :: "string \<Rightarrow> string list" where
  "str_split [] = []"
| "str_split (c # cs) =
     (if isspace c then str_split cs
      else takeWhile (\<lambda>x. \<not> isspace x) (c # cs)
           # str_split (dropWhile (\<lambda>x. \<not> isspace x) cs))"
  by pat_completeness auto
termination
  by (relation "measure length") (auto simp: length_dropWhile_le less_Suc_eq_le)

fun join :: "string \<Rightarrow> string list \<Rightarrow> string" where
  "join sep [] = []"
| "join sep [w] = w"
| "join sep (w # v # ws) = w @ sep @ join sep (v # ws)"

subsection \<open>Slices and \<open>range\<close>\<close>

text \<open>
  \<open>xs[i:j]\<close>: a negative index counts from the end, and both indices are clamped to
  the list.
\<close>

definition slice_index :: "int \<Rightarrow> int \<Rightarrow> int" where
  "slice_index n i = (if i < 0 then max 0 (n + i) else min n i)"

definition slice :: "'a list \<Rightarrow> int \<Rightarrow> int \<Rightarrow> 'a list" where
  "slice xs i j =
     (let n = int (length xs); a = slice_index n i; b = slice_index n j
      in take (nat (b - a)) (drop (nat a) xs))"

text \<open>
  \<open>range(start, stop, step)\<close> raises \<open>ValueError\<close> for a zero step, counts upwards
  for a positive step and downwards for a negative one.
\<close>

function range_up :: "int \<Rightarrow> int \<Rightarrow> int \<Rightarrow> int list" where
  "range_up i stop step =
     (if 0 < step \<and> i < stop then i # range_up (i + step) stop step else [])"
  by pat_completeness auto
termination
  by (relation "measure (\<lambda>(i, stop, step). nat (stop - i))") auto

declare range_up.simps [simp del]

function range_down :: "int \<Rightarrow> int \<Rightarrow> int \<Rightarrow> int list" where
  "range_down i stop step =
     (if step < 0 \<and> stop < i then i # range_down (i + step) stop step else [])"
  by pat_completeness auto
termination
  by (relation "measure (\<lambda>(i, stop, step). nat (i - stop))") auto

declare range_down.simps [simp del]

definition py_range :: "int \<Rightarrow> int \<Rightarrow> int \<Rightarrow> py_exn + int list" where
  "py_range start stop step =
     (if step = 0 then Inl ValueError
      else if 0 < step then Inr (range_up start stop step)
      else Inr (range_down start stop step))"

section \<open>The chunker\<close>

text \<open>
  \<open>check_text_detailed\<close> reads the file at \<open>fp\<close>; the model takes the text read.
  \<open>max_tokens // 4\<close> is Python's floor division, which is \<open>div\<close> on \<open>int\<close>.
\<close>

definition check_text_detailed :: "string \<Rightarrow> int \<Rightarrow> py_exn + (int \<times> string) list" where
  "check_text_detailed text max_tokens =
     (let doc = lower text;
          words = str_split doc;
          chunk_size = max_tokens div 4
      in case py_range 0 (int (length words)) chunk_size of
           Inl e \<Rightarrow> Inl e
         | Inr idxs \<Rightarrow>
             Inr (map (\<lambda>start_idx.
                    (start_idx, join '' '' (slice words start_idx (start_idx + chunk_size))))
                  idxs))"

text \<open>A word, as \<open>str.split()\<close> returns it: not empty, and free of whitespace.\<close>

definition is_word :: "string \<Rightarrow> bool" where
  "is_word w = (w \<noteq> [] \<and> (\<forall>c \<in> set w. \<not> isspace c))"

section \<open>The claim extractor\<close>

subsection \<open>Parsed JSON\<close>

text \<open>
  \<open>json.loads\<close> returns a Python value: \<open>None\<close> for \<open>null\<close>, a \<open>bool\<close>, an \<open>int\<close>,
  a \<open>float\<close>, a \<open>str\<close>, a \<open>list\<close> or a \<open>dict\<close> with string keys. A float is its sign,
  mantissa and exponent, an infinity or a NaN. A dict is an association list, read with
  \<open>map_of\<close>.
\<close>

datatype py_float = Finite bool nat int | Infinity bool | NaN

datatype py_value =
    PyNone
  | PyBool bool
  | PyInt int
  | PyFloat py_float
  | PyStr string
  | PyList "py_value list"
  | PyDict "(string \<times> py_value) list"

text \<open>The truth value that \<open>if x:\<close> tests.\<close>

fun truthy :: "py_value \<Rightarrow> bool" where
  "truthy PyNone = False"
| "truthy (PyBool b) = b"
| "truthy (PyInt i) = (i \<noteq> 0)"
| "truthy (PyFloat (Finite s m e)) = (m \<noteq> 0)"
| "truthy (PyFloat (Infinity s)) = True"
| "truthy (PyFloat NaN) = True"
| "truthy (PyStr s) = (s \<noteq> [])"
| "truthy (PyList xs) = (xs \<noteq> [])"
| "truthy (PyDict kvs) = (kvs \<noteq> [])"

text \<open>
  \<open>obj.get(key, default)\<close>: only a dict has the method; on any other value the attribute
  lookup raises \<open>AttributeError\<close>.
\<close>

definition get :: "py_value \<Rightarrow> string \<Rightarrow> py_value \<Rightarrow> py_exn + py_value" where
  "get obj key dflt =
     (case obj of
        PyDict kvs \<Rightarrow> Inr (case map_of kvs key of Some v \<Rightarrow> v | None \<Rightarrow> dflt)
      | _ \<Rightarrow> Inl AttributeError)"

text \<open>\<open>obj[key]\<close> with a string key.\<close>

definition getitem :: "py_value \<Rightarrow> string \<Rightarrow> py_exn + py_value" where
  "getitem obj key =
     (case obj of
        PyDict kvs \<Rightarrow> (case map_of kvs key of Some v \<Rightarrow> Inr v | None \<Rightarrow> Inl KeyError)
      | _ \<Rightarrow> Inl TypeError)"

subsection \<open>The completion service\<close>

text \<open>
  The OpenAI client and \<open>json.loads\<close> are libraries outside the module, so the model
  takes them as parameters. \<open>openai api_key\<close> is the client built from the key; applied to
  the model name, the prompt and the token ceiling it gives what
  \<open>client.Completion.create(...)\<close> followed by \<open>response.choices[0].text\<close> gives: the text
  of the first choice, or the exception raised on the way. \<open>loads\<close> gives the parsed
  value or the exception of the parser.
\<close>

type_synonym client = "string \<Rightarrow> string \<Rightarrow> int \<Rightarrow> py_exn + string"

type_synonym json_loads = "string \<Rightarrow> py_exn + py_value"

subsection \<open>Chunked mode\<close>

text \<open>
  The body of the \<open>try\<close> block for one chunk: \<open>Inl e\<close> when it raises \<open>e\<close>,
  \<open>Inr (Some r)\<close> when it appends the record \<open>r\<close>, \<open>Inr None\<close> when it appends nothing.
\<close>

definition try_chunk ::
  "client \<Rightarrow> json_loads \<Rightarrow> string \<Rightarrow> string \<Rightarrow> int \<Rightarrow> string
     \<Rightarrow> py_exn + (int \<times> string \<times> py_value) option" where
  "try_chunk client loads model system_prompt start_index chunk =
     (case client model (system_prompt @ ''\<newline>\<newline>'' @ chunk) 150 of
        Inl e \<Rightarrow> Inl e
      | Inr text \<Rightarrow>
          (case loads text of
             Inl e \<Rightarrow> Inl e
           | Inr as_json \<Rightarrow>
               (case get as_json ''claims'' PyNone of
                  Inl e \<Rightarrow> Inl e
                | Inr c \<Rightarrow>
                    if truthy c
                    then (case getitem as_json ''claims'' of
                            Inl e \<Rightarrow> Inl e
                          | Inr v \<Rightarrow> Inr (Some (start_index, chunk, v)))
                    else Inr None)))"

text \<open>
  The \<open>for\<close> loop. Its state is the list \<open>relevant_documents\<close> and the lines printed so
  far; a printed line is the pair of the start index and the exception that the message
  is formatted from.
\<close>

fun chunk_loop ::
  "client \<Rightarrow> json_loads \<Rightarrow> string \<Rightarrow> string \<Rightarrow> (int \<times> string) list
     \<Rightarrow> (int \<times> string \<times> py_value) list \<times> (int \<times> py_exn) list
     \<Rightarrow> (int \<times> string \<times> py_value) list \<times> (int \<times> py_exn) list" where
  "chunk_loop client loads model system_prompt [] st = st"
| "chunk_loop client loads model system_prompt ((start_index, chunk) # rest)
       (relevant_documents, printed) =
     (case try_chunk client loads model system_prompt start_index chunk of
        Inr (Some r) \<Rightarrow>
          chunk_loop client loads model system_prompt rest (relevant_documents @ [r], printed)
      | Inr None \<Rightarrow>
          chunk_loop client loads model system_prompt rest (relevant_documents, printed)
      | Inl e \<Rightarrow>
          chunk_loop client loads model system_prompt rest
            (relevant_documents, printed @ [(start_index, e)]))"

text \<open>The result is the returned list together with the lines printed.\<close>

definition check_with_openai ::
  "(string \<Rightarrow> client) \<Rightarrow> json_loads \<Rightarrow> (int \<times> string) list \<Rightarrow> string \<Rightarrow> string \<Rightarrow> string
     \<Rightarrow> (int \<times> string \<times> py_value) list \<times> (int \<times> py_exn) list" where
  "check_with_openai openai loads chunks model system_prompt openai_api_key =
     (let client = openai openai_api_key
      in chunk_loop client loads model system_prompt chunks ([], []))"

subsection \<open>Whole-document mode\<close>

text \<open>
  The result is the returned value together with the lines printed; a printed line is
  the exception that the message is formatted from. The value returned at a failure is
  Python's \<open>None\<close>.
\<close>

definition check_doc_with_openai ::
  "(string \<Rightarrow> client) \<Rightarrow> json_loads \<Rightarrow> string \<Rightarrow> string \<Rightarrow> string \<Rightarrow> string
     \<Rightarrow> py_value \<times> py_exn list" where
  "check_doc_with_openai openai loads doc model system_prompt openai_api_key =
     (let client = openai openai_api_key
      in case client model (system_prompt @ ''\<newline>\<newline>'' @ doc) 300 of
           Inl e \<Rightarrow> (PyNone, [e])
         | Inr text \<Rightarrow>
             (case loads text of
                Inl e \<Rightarrow> (PyNone, [e])
              | Inr as_json \<Rightarrow>
                  (case get as_json ''claims'' (PyList []) of
                     Inl e \<Rightarrow> (PyNone, [e])
                   | Inr claims \<Rightarrow> (claims, []))))"

subsection \<open>The contribution of one chunk\<close>

text \<open>What the loop adds to the returned list and to the printed lines for one chunk.\<close>

definition appended ::
  "client \<Rightarrow> json_loads \<Rightarrow> string \<Rightarrow> string \<Rightarrow> int \<times> string
     \<Rightarrow> (int \<times> string \<times> py_value) list" where
  "appended client loads model system_prompt ch =
     (case try_chunk client loads model system_prompt (fst ch) (snd ch) of
        Inr (Some r) \<Rightarrow> [r] | _ \<Rightarrow> [])"

definition reported ::
  "client \<Rightarrow> json_loads \<Rightarrow> string \<Rightarrow> string \<Rightarrow> int \<times> string \<Rightarrow> (int \<times> py_exn) list" where
  "reported client loads model system_prompt ch =
     (case try_chunk client loads model system_prompt (fst ch) (snd ch) of
        Inl e \<Rightarrow> [(fst ch, e)] | _ \<Rightarrow> [])"

subsection \<open>A client and a parser for the examples\<close>

text \<open>
  The replies of the client stand for the JSON texts
  \<open>{"claims": ["x"]}\<close>, \<open>{"claims": ["y", "z"]}\<close>, \<open>{"claims": []}\<close>, \<open>{}\<close> and
  \<open>[1]\<close>; any other text is not JSON. The call for the chunk \<open>beta\<close> raises.
\<close>

definition stub_openai :: "string \<Rightarrow> client" where
  "stub_openai api_key model prompt max_tokens =
     (if prompt = ''find claims\<newline>\<newline>alpha'' then Inr ''one claim''
      else if prompt = ''find claims\<newline>\<newline>beta'' then Inl (APIError ''timeout'')
      else if prompt = ''find claims\<newline>\<newline>gamma'' then Inr ''two claims''
      else if prompt = ''find claims\<newline>\<newline>delta'' then Inr ''empty claims''
      else if prompt = ''find claims\<newline>\<newline>epsilon'' then Inr ''empty object''
      else if prompt = ''find claims\<newline>\<newline>zeta'' then Inr ''a list''
      else Inr ''no json here'')"

definition stub_loads :: json_loads where
  "stub_loads reply =
     (if reply = ''one claim'' then Inr (PyDict [(''claims'', PyList [PyStr ''x''])])
      else if reply = ''two claims''
        then Inr (PyDict [(''claims'', PyList [PyStr ''y'', PyStr ''z''])])
      else if reply = ''empty claims'' then Inr (PyDict [(''claims'', PyList [])])
      else if reply = ''empty object'' then Inr (PyDict [])
      else if reply = ''a list'' then Inr (PyList [PyInt 1])
      else Inl JSONDecodeError)"

section \<open>Properties of the chunker\<close>

subsection \<open>Joining, slicing and counting\<close>


lemma join_Cons: "join sep (w # ws) = (if ws = [] then w else w @ sep @ join sep ws)"
  by (cases ws) simp_all

lemma join_append:
  "xs \<noteq> [] \<Longrightarrow> ys \<noteq> [] \<Longrightarrow> join sep (xs @ ys) = join sep xs @ sep @ join sep ys"
  by (induction xs) (auto simp: join_Cons)

lemma range_up_unfold:
  "0 < k \<Longrightarrow> i < n \<Longrightarrow> range_up i n k = i # range_up (i + k) n k"
  by (subst range_up.simps) simp

lemma range_up_empty: "n \<le> i \<Longrightarrow> range_up i n k = []"
  by (subst range_up.simps) simp

lemma range_up_eq_Nil: "0 < k \<Longrightarrow> range_up i n k = [] \<longleftrightarrow> n \<le> i"
  by (subst range_up.simps) simp

lemma slice_window:
  assumes "0 \<le> i" "0 \<le> k"
  shows "slice xs i (i + k) = take (nat k) (drop (nat i) xs)"
proof (cases "i \<le> int (length xs)")
  case True
  with assms have a: "slice_index (int (length xs)) i = i"
    by (simp add: slice_index_def)
  show ?thesis
  proof (cases "i + k \<le> int (length xs)")
    case True
    with assms have b: "slice_index (int (length xs)) (i + k) = i + k"
      by (simp add: slice_index_def)
    show ?thesis by (simp add: slice_def a b)
  next
    case False
    with assms have b: "slice_index (int (length xs)) (i + k) = int (length xs)"
      by (simp add: slice_index_def)
    have "length (drop (nat i) xs) \<le> nat k" using False assms by simp
    moreover have "length (drop (nat i) xs) \<le> nat (int (length xs) - i)" using assms by simp
    ultimately show ?thesis by (simp add: slice_def a b)
  qed
next
  case False
  with assms have a: "slice_index (int (length xs)) i = int (length xs)"
    by (simp add: slice_index_def)
  from False assms have "length xs \<le> nat i" by simp
  then show ?thesis by (simp add: slice_def a)
qed

lemma range_up_nth:
  "0 < k \<Longrightarrow> j < length (range_up i n k) \<Longrightarrow> range_up i n k ! j = i + int j * k"
proof (induction j arbitrary: i)
  case 0
  show ?case
  proof (cases "i < n")
    case True
    from range_up_unfold[OF "0.prems"(1) True] show ?thesis by simp
  next
    case False
    then have "range_up i n k = []" by (simp add: range_up_empty)
    with "0.prems" show ?thesis by simp
  qed
next
  case (Suc j)
  show ?case
  proof (cases "i < n")
    case True
    note u = range_up_unfold[OF Suc.prems(1) True]
    from Suc.prems(2) have "j < length (range_up (i + k) n k)"
      unfolding u by simp
    from Suc.IH[OF Suc.prems(1) this] have "range_up (i + k) n k ! j = i + k + int j * k" .
    then show ?thesis unfolding u by (simp add: distrib_right)
  next
    case False
    then have "range_up i n k = []" by (simp add: range_up_empty)
    with Suc.prems show ?thesis by simp
  qed
qed

lemma range_up_less: "s \<in> set (range_up i n k) \<Longrightarrow> s < n"
proof (induction i n k rule: range_up.induct)
  case (1 i stop step)
  show ?case
  proof (cases "0 < step \<and> i < stop")
    case True
    then have u: "range_up i stop step = i # range_up (i + step) stop step"
      by (simp add: range_up_unfold[of step i stop])
    from "1.prems" have "s = i \<or> s \<in> set (range_up (i + step) stop step)"
      unfolding u by simp
    then show ?thesis using True "1.IH" by blast
  next
    case False
    then have "range_up i stop step = []" by (subst range_up.simps) simp
    with "1.prems" show ?thesis by simp
  qed
qed

lemma range_up_ge: "s \<in> set (range_up i n k) \<Longrightarrow> i \<le> s"
proof (induction i n k rule: range_up.induct)
  case (1 i stop step)
  show ?case
  proof (cases "0 < step \<and> i < stop")
    case True
    then have u: "range_up i stop step = i # range_up (i + step) stop step"
      by (simp add: range_up_unfold[of step i stop])
    from "1.prems" have "s = i \<or> s \<in> set (range_up (i + step) stop step)"
      unfolding u by simp
    then show ?thesis
    proof
      assume "s = i" then show ?thesis by simp
    next
      assume "s \<in> set (range_up (i + step) stop step)"
      with "1.IH" True have "i + step \<le> s" by blast
      with True show ?thesis by linarith
    qed
  next
    case False
    then have "range_up i stop step = []" by (subst range_up.simps) simp
    with "1.prems" show ?thesis by simp
  qed
qed

lemma range_up_last:
  "0 < k \<Longrightarrow> range_up i n k \<noteq> [] \<Longrightarrow> n \<le> last (range_up i n k) + k"
proof (induction i n k rule: range_up.induct)
  case (1 i stop step)
  from "1.prems" have lt: "i < stop" by (simp add: range_up_eq_Nil)
  note u = range_up_unfold[OF "1.prems"(1) lt]
  show ?case
  proof (cases "i + step < stop")
    case True
    with "1.prems"(1) have ne: "range_up (i + step) stop step \<noteq> []"
      by (simp add: range_up_eq_Nil)
    from "1.IH" "1.prems"(1) lt ne
    have "stop \<le> last (range_up (i + step) stop step) + step" by blast
    with ne show ?thesis unfolding u by simp
  next
    case False
    then have "range_up (i + step) stop step = []" by (simp add: range_up_empty)
    with False show ?thesis unfolding u by simp
  qed
qed

text \<open>The windows cut by the loop, joined, give back the words from the start index on.\<close>

lemma join_windows:
  assumes "0 < k"
  shows "0 \<le> i \<Longrightarrow>
    join sep (map (\<lambda>s. join sep (slice ws s (s + k))) (range_up i (int (length ws)) k))
      = join sep (drop (nat i) ws)"
using assms proof (induction i "int (length ws)" k rule: range_up.induct)
  case (1 i step)
  let ?n = "int (length ws)"
  show ?case
  proof (cases "i < ?n")
    case False
    then have "range_up i ?n step = []" by (simp add: range_up_empty)
    moreover from False "1.prems" have "drop (nat i) ws = []" by simp
    ultimately show ?thesis by simp
  next
    case True
    note u = range_up_unfold[OF "1.prems"(2) True]
    have w: "slice ws i (i + step) = take (nat step) (drop (nat i) ws)"
      using "1.prems" by (simp add: slice_window)
    have ih: "join sep (map (\<lambda>s. join sep (slice ws s (s + step))) (range_up (i + step) ?n step))
      = join sep (drop (nat (i + step)) ws)"
      using "1.hyps" "1.prems" True by simp
    have d: "drop (nat (i + step)) ws = drop (nat step) (drop (nat i) ws)"
      using "1.prems" by (simp add: nat_add_distrib add.commute)
    show ?thesis
    proof (cases "i + step < ?n")
      case False
      then have e: "range_up (i + step) ?n step = []" by (simp add: range_up_empty)
      from False "1.prems" have "length (drop (nat i) ws) \<le> nat step" by simp
      then have "take (nat step) (drop (nat i) ws) = drop (nat i) ws" by simp
      then show ?thesis unfolding u by (simp add: e w)
    next
      case True2: True
      then have ne: "range_up (i + step) ?n step \<noteq> []"
        using "1.prems" by (simp add: range_up_eq_Nil)
      from True2 "1.prems" have ne1: "take (nat step) (drop (nat i) ws) \<noteq> []" by simp
      from True2 "1.prems" have ne2: "drop (nat step) (drop (nat i) ws) \<noteq> []" 
        by (simp add: nat_add_distrib) 
      have "join sep (drop (nat i) ws)
          = join sep (take (nat step) (drop (nat i) ws) @ drop (nat step) (drop (nat i) ws))"
        by (simp only: append_take_drop_id)
      also have "\<dots> = join sep (take (nat step) (drop (nat i) ws)) @ sep
                       @ join sep (drop (nat step) (drop (nat i) ws))"
        by (rule join_append[OF ne1 ne2])
      finally have r: "join sep (drop (nat i) ws)
          = join sep (take (nat step) (drop (nat i) ws)) @ sep
                       @ join sep (drop (nat step) (drop (nat i) ws))" .
      show ?thesis unfolding u using ne ih by (simp add: join_Cons w d r)
    qed
  qed
qed

subsection \<open>Splitting a joined list of words\<close>


lemma str_split_words: "w \<in> set (str_split s) \<Longrightarrow> is_word w"
proof (induction s rule: str_split.induct)
  case 1
  then show ?case by simp
next
  case (2 c cs)
  show ?case
  proof (cases "isspace c")
    case True
    with 2 show ?thesis by simp
  next
    case False
    with "2.prems" have "w = c # takeWhile (\<lambda>x. \<not> isspace x) cs
        \<or> w \<in> set (str_split (dropWhile (\<lambda>x. \<not> isspace x) cs))"
      by simp
    then show ?thesis
    proof
      assume "w = c # takeWhile (\<lambda>x. \<not> isspace x) cs"
      with False show ?thesis by (auto simp: is_word_def dest: set_takeWhileD)
    next
      assume "w \<in> set (str_split (dropWhile (\<lambda>x. \<not> isspace x) cs))"
      with "2.IH"(2) False show ?thesis by simp
    qed
  qed
qed

lemma isspace_space: "isspace CHR '' ''"
  by (simp add: isspace_def)

lemma str_split_word_space:
  assumes "is_word w"
  shows "str_split (w @ CHR '' '' # s) = w # str_split s"
proof -
  from assms obtain c cs where w: "w = c # cs" by (cases w) (auto simp: is_word_def)
  with assms have nc: "\<not> isspace c" and ncs: "\<forall>x \<in> set cs. \<not> isspace x"
    by (auto simp: is_word_def)
  from ncs have t: "takeWhile (\<lambda>x. \<not> isspace x) (cs @ CHR '' '' # s) = cs"
    by (simp add: takeWhile_append2 isspace_space)
  from ncs have d: "dropWhile (\<lambda>x. \<not> isspace x) (cs @ CHR '' '' # s) = CHR '' '' # s"
    by (simp add: dropWhile_append2 isspace_space)
  show ?thesis using nc by (simp add: w t d isspace_space)
qed

lemma str_split_word:
  assumes "is_word w"
  shows "str_split w = [w]"
proof -
  from assms obtain c cs where w: "w = c # cs" by (cases w) (auto simp: is_word_def)
  with assms have nc: "\<not> isspace c" and ncs: "\<forall>x \<in> set cs. \<not> isspace x"
    by (auto simp: is_word_def)
  from ncs have t: "takeWhile (\<lambda>x. \<not> isspace x) cs = cs" by simp
  from ncs have d: "dropWhile (\<lambda>x. \<not> isspace x) cs = []" by simp
  show ?thesis using nc by (simp add: w t d)
qed

lemma str_split_join:
  "\<forall>w \<in> set ws. is_word w \<Longrightarrow> str_split (join '' '' ws) = ws"
proof (induction ws)
  case Nil
  then show ?case by simp
next
  case (Cons w ws)
  show ?case
  proof (cases ws)
    case Nil
    with Cons.prems show ?thesis by (simp add: str_split_word)
  next
    case (Cons v vs)
    with Cons.prems Cons.IH have "str_split (join '' '' ws) = ws" by simp
    moreover from Cons.prems have "is_word w" by simp
    ultimately show ?thesis using Cons by (simp add: str_split_word_space)
  qed
qed

lemma join_nonempty:
  "ws \<noteq> [] \<Longrightarrow> \<forall>w \<in> set ws. w \<noteq> [] \<Longrightarrow> join sep ws \<noteq> []"
  by (cases ws) (auto simp: join_Cons)

subsection \<open>The chunks returned for a valid budget\<close>


lemma check_text_detailed_chunks:
  assumes "4 \<le> max_tokens"
  shows "check_text_detailed text max_tokens =
    Inr (map (\<lambda>s. (s, join '' '' (slice (str_split (lower text)) s (s + max_tokens div 4))))
          (range_up 0 (int (length (str_split (lower text)))) (max_tokens div 4)))"
proof -
  from assms have "0 < max_tokens div 4" by simp
  then show ?thesis by (simp add: check_text_detailed_def py_range_def Let_def)
qed

subsection \<open>Coverage\<close>

text \<open>
  C1. For every document and every \<open>max_tokens\<close> of at least 4 the chunker returns a
  list of chunks, and the chunk texts, joined in order with single spaces, are the
  lower-cased document's words joined with single spaces.
\<close>

theorem chunk_coverage:
  assumes "4 \<le> max_tokens"
  shows "\<exists>chunks. check_text_detailed text max_tokens = Inr chunks
           \<and> join '' '' (map snd chunks) = join '' '' (str_split (lower text))"
proof -
  let ?ws = "str_split (lower text)"
  let ?k = "max_tokens div 4"
  from assms have k: "0 < ?k" by simp
  have "join '' '' (map (\<lambda>s. join '' '' (slice ?ws s (s + ?k))) (range_up 0 (int (length ?ws)) ?k))
      = join '' '' (drop (nat 0) ?ws)"
    by (rule join_windows[OF k]) simp
  then show ?thesis
    by (simp add: check_text_detailed_chunks[OF assms] comp_def)
qed

theorem chunk_coverage_witness:
  "(4::int) \<le> 9 \<and> check_text_detailed ''The  Cat SAT on a Mat '' 9
       = Inr [(0, ''the cat''), (2, ''sat on''), (4, ''a mat'')]
   \<and> (\<exists>chunks. check_text_detailed ''The  Cat SAT on a Mat '' 9 = Inr chunks
           \<and> join '' '' (map snd chunks) = join '' '' (str_split (lower ''The  Cat SAT on a Mat '')))"
proof -
  have e: "check_text_detailed ''The  Cat SAT on a Mat '' 9
       = Inr [(0, ''the cat''), (2, ''sat on''), (4, ''a mat'')]"
    by code_simp
  show ?thesis
    using chunk_coverage[of 9 "''The  Cat SAT on a Mat ''"] e by simp
qed

subsection \<open>Offsets\<close>

text \<open>
  C7. For every document and every \<open>max_tokens\<close> of at least 4 the chunker returns a
  list of chunks, and the start index recorded in the \<open>i\<close>-th chunk, counted from 0, is
  \<open>i * (max_tokens // 4)\<close>.
\<close>

theorem chunk_offsets:
  assumes "4 \<le> max_tokens"
  shows "\<exists>chunks. check_text_detailed text max_tokens = Inr chunks
           \<and> (\<forall>i < length chunks. fst (chunks ! i) = int i * (max_tokens div 4))"
proof -
  from assms have k: "0 < max_tokens div 4" by simp
  show ?thesis
    using range_up_nth[OF k, of _ 0]
    by (simp add: check_text_detailed_chunks[OF assms])
qed

theorem chunk_offsets_witness:
  "(4::int) \<le> 9 \<and> check_text_detailed ''The  Cat SAT on a Mat '' 9
       = Inr [(0, ''the cat''), (2, ''sat on''), (4, ''a mat'')]
   \<and> (\<exists>chunks. check_text_detailed ''The  Cat SAT on a Mat '' 9 = Inr chunks
           \<and> (\<forall>i < length chunks. fst (chunks ! i) = int i * (9 div 4)))"
proof -
  have e: "check_text_detailed ''The  Cat SAT on a Mat '' 9
       = Inr [(0, ''the cat''), (2, ''sat on''), (4, ''a mat'')]"
    by code_simp
  show ?thesis
    using chunk_offsets[of 9 "''The  Cat SAT on a Mat ''"] e by simp
qed

subsection \<open>No empty chunk\<close>

lemma window_nonempty:
  assumes "0 < k" "0 \<le> s" "s < int (length ws)"
  shows "slice ws s (s + k) \<noteq> []"
  using assms by (simp add: slice_window)

lemma str_split_Nil: "str_split (lower []) = []"
  by (simp add: lower_def)

text \<open>
  C8. For every \<open>max_tokens\<close> of at least 4 the chunker returns a list of chunks none of
  which has an empty text, and for the empty document the list is empty.
\<close>

theorem chunks_nonempty:
  assumes "4 \<le> max_tokens"
  shows "\<exists>chunks. check_text_detailed text max_tokens = Inr chunks
           \<and> (\<forall>c \<in> set chunks. snd c \<noteq> [])
           \<and> (text = [] \<longrightarrow> chunks = [])"
proof -
  let ?ws = "str_split (lower text)"
  let ?k = "max_tokens div 4"
  let ?chunks = "map (\<lambda>s. (s, join '' '' (slice ?ws s (s + ?k)))) (range_up 0 (int (length ?ws)) ?k)"
  from assms have k: "0 < ?k" by simp
  have r: "check_text_detailed text max_tokens = Inr ?chunks"
    by (rule check_text_detailed_chunks[OF assms])
  have ne: "snd c \<noteq> []" if c: "c \<in> set ?chunks" for c
  proof -
    from c obtain s where s: "s \<in> set (range_up 0 (int (length ?ws)) ?k)"
      and cs: "c = (s, join '' '' (slice ?ws s (s + ?k)))" by auto
    from s have "0 \<le> s" by (rule range_up_ge)
    moreover from s have "s < int (length ?ws)" by (rule range_up_less)
    ultimately have w: "slice ?ws s (s + ?k) \<noteq> []" using k by (simp add: window_nonempty)
    have sub: "set (slice ?ws s (s + ?k)) \<subseteq> set ?ws"
      using \<open>0 \<le> s\<close> k by (auto simp: slice_window dest: in_set_takeD in_set_dropD)
    have "\<forall>w \<in> set (slice ?ws s (s + ?k)). w \<noteq> []"
      using sub str_split_words[of _ "lower text"] by (auto simp: is_word_def)
    with w have "join '' '' (slice ?ws s (s + ?k)) \<noteq> []" by (rule join_nonempty)
    with cs show ?thesis by simp
  qed
  have em: "?chunks = []" if "text = []"
    using that by (simp add: str_split_Nil range_up_empty)
  from r ne em show ?thesis by blast
qed

theorem chunks_nonempty_witness:
  "(4::int) \<le> 9 \<and> check_text_detailed [] 9 = Inr []
   \<and> (\<exists>chunks. check_text_detailed ''The  Cat SAT on a Mat '' 9 = Inr chunks
           \<and> (\<forall>c \<in> set chunks. snd c \<noteq> [])
           \<and> (''The  Cat SAT on a Mat '' = [] \<longrightarrow> chunks = []))"
proof -
  have e: "check_text_detailed [] 9 = Inr []"
    using chunks_nonempty[of 9 "[]"] by simp
  show ?thesis
    using chunks_nonempty[of 9 "''The  Cat SAT on a Mat ''"] e by simp
qed

subsection \<open>Sizes\<close>

lemma last_window_size:
  fixes n k r :: int
  assumes "0 < r" "r \<le> k" "n = q * k + r"
  shows "(if n mod k = 0 then k else n mod k) = r"
proof (cases "r = k")
  case True
  with assms have "n = (q + 1) * k" by (simp add: distrib_right)
  then have "n mod k = 0" by simp
  with True show ?thesis by simp
next
  case False
  with assms have "r < k" by simp
  from assms(3) have "n mod k = r mod k" by (simp add: add.commute)
  also from assms(1) \<open>r < k\<close> have "\<dots> = r" by simp
  finally show ?thesis using assms(1) by simp
qed

lemma window_length:
  fixes k s :: int
  assumes "0 < k" "0 \<le> s" "s < int m"
  shows "int (min (m - nat s) (nat k)) = min k (int m - s)"
  using assms by arith

text \<open>
  C6. For every document and every \<open>max_tokens\<close> of at least 4 the chunker returns a
  list of chunks; the text of every chunk but the last splits into exactly
  \<open>max_tokens // 4\<close> words, and the text of the last chunk into
  \<open>len(words) % (max_tokens // 4)\<close> words, or into \<open>max_tokens // 4\<close> words when that
  remainder is 0.
\<close>

theorem chunk_sizes:
  assumes "4 \<le> max_tokens"
  shows "\<exists>chunks. check_text_detailed text max_tokens = Inr chunks
    \<and> (\<forall>i < length chunks.
          int (length (str_split (snd (chunks ! i)))) =
            (if Suc i < length chunks then max_tokens div 4
             else if int (length (str_split (lower text))) mod (max_tokens div 4) = 0
                  then max_tokens div 4
                  else int (length (str_split (lower text))) mod (max_tokens div 4)))"
proof -
  let ?ws = "str_split (lower text)"
  let ?n = "int (length ?ws)"
  let ?k = "max_tokens div 4"
  let ?idxs = "range_up 0 ?n ?k"
  let ?chunks = "map (\<lambda>s. (s, join '' '' (slice ?ws s (s + ?k)))) ?idxs"
  from assms have k: "0 < ?k" by simp
  have r: "check_text_detailed text max_tokens = Inr ?chunks"
    by (rule check_text_detailed_chunks[OF assms])
  have sz: "int (length (str_split (snd (?chunks ! i)))) =
            (if Suc i < length ?chunks then ?k
             else if ?n mod ?k = 0 then ?k else ?n mod ?k)"
    if i: "i < length ?chunks" for i
  proof -
    from i have il: "i < length ?idxs" by simp
    let ?s = "int i * ?k"
    from range_up_nth[OF k il] have s: "?idxs ! i = ?s" by simp
    from il have mem: "?idxs ! i \<in> set ?idxs" by simp
    have s0: "0 \<le> ?s" using k by simp
    from mem s have sn: "?s < ?n" using range_up_less by metis
    have w: "slice ?ws ?s (?s + ?k) = take (nat ?k) (drop (nat ?s) ?ws)"
      using s0 k by (simp add: slice_window)
    have "\<forall>w \<in> set (take (nat ?k) (drop (nat ?s) ?ws)). is_word w"
      using str_split_words[of _ "lower text"] by (auto dest!: in_set_takeD in_set_dropD)
    then have sp: "str_split (join '' '' (slice ?ws ?s (?s + ?k))) = take (nat ?k) (drop (nat ?s) ?ws)"
      unfolding w by (rule str_split_join)
    have c: "snd (?chunks ! i) = join '' '' (slice ?ws ?s (?s + ?k))"
      using il s by simp
    have len: "int (length (str_split (snd (?chunks ! i)))) = min ?k (?n - ?s)"
      unfolding c sp using window_length[OF k s0 sn] by simp
    show ?thesis
    proof (cases "Suc i < length ?chunks")
      case True
      then have il2: "Suc i < length ?idxs" by simp
      from range_up_nth[OF k il2] have "?idxs ! Suc i = int (Suc i) * ?k" by simp
      moreover from il2 have "?idxs ! Suc i \<in> set ?idxs" by simp
      ultimately have "int (Suc i) * ?k < ?n" using range_up_less by metis
      then have "?s + ?k < ?n" by (simp add: distrib_right)
      with len True show ?thesis by simp
    next
      case False
      with il have li: "i = length ?idxs - 1" by simp
      from il have ne: "?idxs \<noteq> []" by auto
      from li ne s have "last ?idxs = ?s" by (simp add: last_conv_nth)
      with range_up_last[OF k ne] have up: "?n \<le> ?s + ?k" by simp
      have "(if ?n mod ?k = 0 then ?k else ?n mod ?k) = ?n - ?s"
        by (rule last_window_size[where q = "int i"]) (use sn up in simp_all)
      with len up False show ?thesis by simp
    qed
  qed
  from r sz show ?thesis by blast
qed

theorem chunk_sizes_witness:
  "(4::int) \<le> 9 \<and> check_text_detailed ''The  Cat SAT on a Mat now'' 9
       = Inr [(0, ''the cat''), (2, ''sat on''), (4, ''a mat''), (6, ''now'')]
   \<and> (\<exists>chunks. check_text_detailed ''The  Cat SAT on a Mat now'' 9 = Inr chunks
    \<and> (\<forall>i < length chunks.
          int (length (str_split (snd (chunks ! i)))) =
            (if Suc i < length chunks then 9 div 4
             else if int (length (str_split (lower ''The  Cat SAT on a Mat now''))) mod (9 div 4) = 0
                  then 9 div 4
                  else int (length (str_split (lower ''The  Cat SAT on a Mat now''))) mod (9 div 4))))"
proof -
  have e: "check_text_detailed ''The  Cat SAT on a Mat now'' 9
       = Inr [(0, ''the cat''), (2, ''sat on''), (4, ''a mat''), (6, ''now'')]"
    by code_simp
  show ?thesis
    using chunk_sizes[of 9 "''The  Cat SAT on a Mat now''"] e by simp
qed

subsection \<open>Budgets below 4\<close>




section \<open>The loop of chunked mode\<close>

lemma get_claims_truthy:
  "get as_json ''claims'' PyNone = Inr c \<Longrightarrow> truthy c \<Longrightarrow>
     \<exists>kvs. as_json = PyDict kvs \<and> map_of kvs ''claims'' = Some c"
  by (cases as_json) (auto simp: get_def split: option.splits)

lemma try_chunk_Some_iff:
  "try_chunk client loads model system_prompt start_index chunk = Inr (Some r) \<longleftrightarrow>
     (\<exists>text kvs v.
        client model (system_prompt @ ''\<newline>\<newline>'' @ chunk) 150 = Inr text
      \<and> loads text = Inr (PyDict kvs) \<and> map_of kvs ''claims'' = Some v \<and> truthy v
      \<and> r = (start_index, chunk, v))"
proof
  assume a: "try_chunk client loads model system_prompt start_index chunk = Inr (Some r)"
  then obtain reply where t: "client model (system_prompt @ ''\<newline>\<newline>'' @ chunk) 150 = Inr reply"
    by (auto simp: try_chunk_def split: sum.splits)
  with a obtain as_json where j: "loads reply = Inr as_json"
    by (auto simp: try_chunk_def split: sum.splits)
  with a t obtain c where c: "get as_json ''claims'' PyNone = Inr c"
    by (auto simp: try_chunk_def split: sum.splits)
  with a t j have tr: "truthy c"
    by (auto simp: try_chunk_def split: sum.splits if_splits)
  from get_claims_truthy[OF c tr] obtain kvs
    where d: "as_json = PyDict kvs" and m: "map_of kvs ''claims'' = Some c" by blast
  from a t j c tr d m have "r = (start_index, chunk, c)"
    by (simp add: try_chunk_def getitem_def)
  with t j d m tr show "\<exists>text kvs v.
        client model (system_prompt @ ''\<newline>\<newline>'' @ chunk) 150 = Inr text
      \<and> loads text = Inr (PyDict kvs) \<and> map_of kvs ''claims'' = Some v \<and> truthy v
      \<and> r = (start_index, chunk, v)" by blast
next
  assume "\<exists>text kvs v.
        client model (system_prompt @ ''\<newline>\<newline>'' @ chunk) 150 = Inr text
      \<and> loads text = Inr (PyDict kvs) \<and> map_of kvs ''claims'' = Some v \<and> truthy v
      \<and> r = (start_index, chunk, v)"
  then show "try_chunk client loads model system_prompt start_index chunk = Inr (Some r)"
    by (auto simp: try_chunk_def get_def getitem_def)
qed

lemma try_chunk_raises:
  assumes "client model (system_prompt @ ''\<newline>\<newline>'' @ chunk) 150 = Inl e
     \<or> (\<exists>text. client model (system_prompt @ ''\<newline>\<newline>'' @ chunk) 150 = Inr text
               \<and> loads text = Inl e)"
  shows "try_chunk client loads model system_prompt start_index chunk = Inl e"
  using assms by (auto simp: try_chunk_def)

lemma chunk_loop_concat:
  "chunk_loop client loads model system_prompt chunks (docs, printed) =
     (docs @ concat (map (appended client loads model system_prompt) chunks),
      printed @ concat (map (reported client loads model system_prompt) chunks))"
proof (induction chunks arbitrary: docs printed)
  case Nil
  then show ?case by simp
next
  case (Cons ch chunks)
  obtain i c where ch: "ch = (i, c)" by (cases ch)
  show ?case
    unfolding ch
    by (cases "try_chunk client loads model system_prompt i c")
       (auto simp: Cons.IH appended_def reported_def split: option.splits)
qed

lemma check_with_openai_concat:
  "check_with_openai openai loads chunks model system_prompt key =
     (concat (map (appended (openai key) loads model system_prompt) chunks),
      concat (map (reported (openai key) loads model system_prompt) chunks))"
  by (simp add: check_with_openai_def chunk_loop_concat Let_def)

section \<open>Properties of chunked mode\<close>

subsection \<open>Which chunks have a record\<close>

lemma appended_mem:
  "r \<in> set (appended client loads model system_prompt ch) \<longleftrightarrow>
     try_chunk client loads model system_prompt (fst ch) (snd ch) = Inr (Some r)"
proof (cases "try_chunk client loads model system_prompt (fst ch) (snd ch)")
  case (Inl e)
  then show ?thesis by (simp add: appended_def)
next
  case (Inr res)
  then show ?thesis by (cases res) (auto simp: appended_def)
qed

lemma check_with_openai_mem:
  "r \<in> set (fst (check_with_openai openai loads chunks model system_prompt api_key)) \<longleftrightarrow>
     (\<exists>ch \<in> set chunks.
        try_chunk (openai api_key) loads model system_prompt (fst ch) (snd ch) = Inr (Some r))"
  by (simp add: check_with_openai_concat appended_mem)

text \<open>
  C4. For every chunk of the input list, the list returned holds a record for the chunk
  if and only if the call returned a reply, the reply parsed as a JSON object, and the
  object's \<open>claims\<close> field is present and non-empty. Non-empty is what the condition
  \<open>if as_json.get("claims")\<close> tests: the value is not \<open>null\<close>, \<open>false\<close>, a zero, or an empty
  string, list or object. So a reply \<open>{"claims": []}\<close>, a reply without the field and a
  failed call give no record.
\<close>

theorem claims_filtering:
  assumes "(start_index, chunk) \<in> set chunks"
  shows "(\<exists>v. (start_index, chunk, v)
             \<in> set (fst (check_with_openai openai loads chunks model system_prompt api_key)))
     \<longleftrightarrow> (\<exists>reply kvs v.
            openai api_key model (system_prompt @ ''\<newline>\<newline>'' @ chunk) 150 = Inr reply
          \<and> loads reply = Inr (PyDict kvs)
          \<and> map_of kvs ''claims'' = Some v \<and> truthy v)"
proof
  assume "\<exists>v. (start_index, chunk, v)
             \<in> set (fst (check_with_openai openai loads chunks model system_prompt api_key))"
  then obtain v ch where
    "try_chunk (openai api_key) loads model system_prompt (fst ch) (snd ch)
       = Inr (Some (start_index, chunk, v))"
    by (auto simp: check_with_openai_mem)
  then show "\<exists>reply kvs v.
            openai api_key model (system_prompt @ ''\<newline>\<newline>'' @ chunk) 150 = Inr reply
          \<and> loads reply = Inr (PyDict kvs)
          \<and> map_of kvs ''claims'' = Some v \<and> truthy v"
    by (auto simp: try_chunk_Some_iff)
next
  assume "\<exists>reply kvs v.
            openai api_key model (system_prompt @ ''\<newline>\<newline>'' @ chunk) 150 = Inr reply
          \<and> loads reply = Inr (PyDict kvs)
          \<and> map_of kvs ''claims'' = Some v \<and> truthy v"
  then obtain v where
    "try_chunk (openai api_key) loads model system_prompt start_index chunk
       = Inr (Some (start_index, chunk, v))"
    by (auto simp: try_chunk_Some_iff)
  with assms have "(start_index, chunk, v)
       \<in> set (fst (check_with_openai openai loads chunks model system_prompt api_key))"
    by (force simp: check_with_openai_mem)
  then show "\<exists>v. (start_index, chunk, v)
             \<in> set (fst (check_with_openai openai loads chunks model system_prompt api_key))" ..
qed

theorem claims_filtering_witness:
  "(6 :: int, ''delta'') \<in> set [(0, ''alpha''), (6, ''delta'')]
   \<and> stub_loads ''empty claims'' = Inr (PyDict [(''claims'', PyList [])])
   \<and> \<not> (\<exists>v. (6, ''delta'', v)
             \<in> set (fst (check_with_openai stub_openai stub_loads
                            [(0, ''alpha''), (6, ''delta'')] ''gpt'' ''find claims'' ''key'')))
   \<and> (\<exists>v. (0, ''alpha'', v)
             \<in> set (fst (check_with_openai stub_openai stub_loads
                            [(0, ''alpha''), (6, ''delta'')] ''gpt'' ''find claims'' ''key'')))"
proof -
  have d: "\<not> (\<exists>reply kvs v.
            stub_openai ''key'' ''gpt'' (''find claims'' @ ''\<newline>\<newline>'' @ ''delta'') 150 = Inr reply
          \<and> stub_loads reply = Inr (PyDict kvs)
          \<and> map_of kvs ''claims'' = Some v \<and> truthy v)"
    by (auto simp: stub_openai_def stub_loads_def)
  have a: "\<exists>reply kvs v.
            stub_openai ''key'' ''gpt'' (''find claims'' @ ''\<newline>\<newline>'' @ ''alpha'') 150 = Inr reply
          \<and> stub_loads reply = Inr (PyDict kvs)
          \<and> map_of kvs ''claims'' = Some v \<and> truthy v"
    by (simp add: stub_openai_def stub_loads_def)
  have md: "(6 :: int, ''delta'') \<in> set [(0, ''alpha''), (6, ''delta'')]" by simp
  have ma: "(0, ''alpha'') \<in> set [(0, ''alpha''), (6::int, ''delta'')]" by simp
  have l: "stub_loads ''empty claims'' = Inr (PyDict [(''claims'', PyList [])])"
    by (simp add: stub_loads_def)
  from claims_filtering[OF md, of stub_openai stub_loads "''gpt''" "''find claims''" "''key''"] d
       claims_filtering[OF ma, of stub_openai stub_loads "''gpt''" "''find claims''" "''key''"] a
       md l
  show ?thesis by blast
qed

subsection \<open>A failing chunk\<close>

text \<open>
  C3. If, for one chunk of the input list, the call raises an error \<open>e\<close>, or the call
  returns and parsing its reply raises \<open>e\<close>, then the records returned are those returned
  for the list without that chunk, which are the records for the chunks before it followed
  by the records for the chunks after it; and the lines printed are those for the chunks
  before it, then the line with the chunk's start index and \<open>e\<close>, then those for the
  chunks after it. With three chunks of which the second fails, the result holds the
  records of the first and the third.
\<close>

theorem chunk_failure_isolated:
  assumes "openai api_key model (system_prompt @ ''\<newline>\<newline>'' @ chunk) 150 = Inl e
     \<or> (\<exists>reply. openai api_key model (system_prompt @ ''\<newline>\<newline>'' @ chunk) 150 = Inr reply
               \<and> loads reply = Inl e)"
  shows "fst (check_with_openai openai loads (before @ (start_index, chunk) # rest)
                model system_prompt api_key)
           = fst (check_with_openai openai loads (before @ rest) model system_prompt api_key)
       \<and> fst (check_with_openai openai loads (before @ (start_index, chunk) # rest)
                model system_prompt api_key)
           = fst (check_with_openai openai loads before model system_prompt api_key)
             @ fst (check_with_openai openai loads rest model system_prompt api_key)
       \<and> snd (check_with_openai openai loads (before @ (start_index, chunk) # rest)
                model system_prompt api_key)
           = snd (check_with_openai openai loads before model system_prompt api_key)
             @ (start_index, e)
             # snd (check_with_openai openai loads rest model system_prompt api_key)"
proof -
  from assms have "try_chunk (openai api_key) loads model system_prompt start_index chunk = Inl e"
    by (rule try_chunk_raises)
  then have "appended (openai api_key) loads model system_prompt (start_index, chunk) = []"
    and "reported (openai api_key) loads model system_prompt (start_index, chunk)
           = [(start_index, e)]"
    by (simp_all add: appended_def reported_def)
  then show ?thesis by (simp add: check_with_openai_concat)
qed

theorem chunk_failure_isolated_witness:
  "stub_openai ''key'' ''gpt'' (''find claims'' @ ''\<newline>\<newline>'' @ ''beta'') 150
      = Inl (APIError ''timeout'')
   \<and> check_with_openai stub_openai stub_loads [(0, ''alpha''), (2, ''beta''), (4, ''gamma'')]
        ''gpt'' ''find claims'' ''key''
      = ([(0, ''alpha'', PyList [PyStr ''x'']), (4, ''gamma'', PyList [PyStr ''y'', PyStr ''z''])],
         [(2, APIError ''timeout'')])"
proof -
  have c: "stub_openai ''key'' ''gpt'' (''find claims'' @ ''\<newline>\<newline>'' @ ''beta'') 150
      = Inl (APIError ''timeout'')"
    by (simp add: stub_openai_def)
  have a: "check_with_openai stub_openai stub_loads [(0, ''alpha'')] ''gpt'' ''find claims'' ''key''
      = ([(0, ''alpha'', PyList [PyStr ''x''])], [])"
    by (simp add: check_with_openai_def try_chunk_def stub_openai_def stub_loads_def
        get_def getitem_def)
  have g: "check_with_openai stub_openai stub_loads [(4, ''gamma'')] ''gpt'' ''find claims'' ''key''
      = ([(4, ''gamma'', PyList [PyStr ''y'', PyStr ''z''])], [])"
    by (simp add: check_with_openai_def try_chunk_def stub_openai_def stub_loads_def
        get_def getitem_def)
  let ?all = "check_with_openai stub_openai stub_loads
      [(0, ''alpha''), (2, ''beta''), (4, ''gamma'')] ''gpt'' ''find claims'' ''key''"
  note iso = chunk_failure_isolated[of stub_openai "''key''" "''gpt''" "''find claims''"
      "''beta''" "APIError ''timeout''" stub_loads "[(0, ''alpha'')]" 2 "[(4, ''gamma'')]",
      OF disjI1, OF c]
  from iso[THEN conjunct2, THEN conjunct1] iso[THEN conjunct2, THEN conjunct2]
  have "fst ?all = [(0, ''alpha'', PyList [PyStr ''x'']),
                    (4, ''gamma'', PyList [PyStr ''y'', PyStr ''z''])]"
    and "snd ?all = [(2, APIError ''timeout'')]"
    by (simp_all add: a g)
  then have "?all = ([(0, ''alpha'', PyList [PyStr ''x'']),
                      (4, ''gamma'', PyList [PyStr ''y'', PyStr ''z''])],
                     [(2, APIError ''timeout'')])"
    by (simp add: prod_eq_iff)
  with c show ?thesis by blast
qed

subsection \<open>Order and contents of the records\<close>

lemma appended_cases:
  "appended client loads model system_prompt ch = []
     \<or> (\<exists>v. appended client loads model system_prompt ch = [(fst ch, snd ch, v)])"
proof (cases "try_chunk client loads model system_prompt (fst ch) (snd ch)")
  case (Inl e)
  then show ?thesis by (simp add: appended_def)
next
  case (Inr res)
  show ?thesis
  proof (cases res)
    case None
    with Inr show ?thesis by (simp add: appended_def)
  next
    case (Some r)
    with Inr have "try_chunk client loads model system_prompt (fst ch) (snd ch) = Inr (Some r)"
      by simp
    then obtain v where "r = (fst ch, snd ch, v)"
      unfolding try_chunk_Some_iff by blast
    with Inr Some show ?thesis by (simp add: appended_def)
  qed
qed

text \<open>
  C9. The records returned, reduced to their start index and chunk text, are a
  subsequence of the input list: they keep the order of their chunks.
\<close>

theorem output_order:
  "subseq (map (\<lambda>(start_index, chunk, claims). (start_index, chunk))
             (fst (check_with_openai openai loads chunks model system_prompt api_key)))
          chunks"
proof -
  let ?p = "\<lambda>(start_index :: int, chunk :: string, claims :: py_value). (start_index, chunk)"
  have "subseq (map ?p (concat (map (appended (openai api_key) loads model system_prompt) chunks)))
          chunks"
  proof (induction chunks)
    case Nil
    then show ?case by simp
  next
    case (Cons ch chunks)
    from appended_cases[of "openai api_key" loads model system_prompt ch]
    show ?case
    proof
      assume "appended (openai api_key) loads model system_prompt ch = []"
      with Cons show ?thesis by (simp add: list_emb_Cons)
    next
      assume "\<exists>v. appended (openai api_key) loads model system_prompt ch = [(fst ch, snd ch, v)]"
      then obtain v where
        "appended (openai api_key) loads model system_prompt ch = [(fst ch, snd ch, v)]" ..
      with Cons show ?thesis by simp
    qed
  qed
  then show ?thesis by (simp add: check_with_openai_concat)
qed

text \<open>
  C10. Every record returned carries the start index and the text of a chunk of the
  input list, unchanged, and its third component is the value of the \<open>claims\<close> field of
  the object parsed from the reply for that chunk, whatever that value is.
\<close>

theorem record_passthrough:
  assumes "(start_index, chunk, claims)
             \<in> set (fst (check_with_openai openai loads chunks model system_prompt api_key))"
  shows "(start_index, chunk) \<in> set chunks
       \<and> (\<exists>reply kvs.
            openai api_key model (system_prompt @ ''\<newline>\<newline>'' @ chunk) 150 = Inr reply
          \<and> loads reply = Inr (PyDict kvs)
          \<and> map_of kvs ''claims'' = Some claims)"
proof -
  from assms obtain ch where ch: "ch \<in> set chunks"
    and t: "try_chunk (openai api_key) loads model system_prompt (fst ch) (snd ch)
       = Inr (Some (start_index, chunk, claims))"
    by (auto simp: check_with_openai_mem)
  from t have "fst ch = start_index" "snd ch = chunk"
    and "\<exists>reply kvs.
            openai api_key model (system_prompt @ ''\<newline>\<newline>'' @ chunk) 150 = Inr reply
          \<and> loads reply = Inr (PyDict kvs)
          \<and> map_of kvs ''claims'' = Some claims"
    by (auto simp: try_chunk_Some_iff)
  with ch show ?thesis by auto
qed

theorem record_passthrough_witness:
  "(4, ''gamma'', PyList [PyStr ''y'', PyStr ''z''])
      \<in> set (fst (check_with_openai stub_openai stub_loads
                     [(0, ''alpha''), (2, ''beta''), (4, ''gamma'')] ''gpt'' ''find claims'' ''key''))
   \<and> (4 :: int, ''gamma'') \<in> set [(0, ''alpha''), (2, ''beta''), (4, ''gamma'')]
   \<and> (\<exists>reply kvs.
         stub_openai ''key'' ''gpt'' (''find claims'' @ ''\<newline>\<newline>'' @ ''gamma'') 150 = Inr reply
       \<and> stub_loads reply = Inr (PyDict kvs)
       \<and> map_of kvs ''claims'' = Some (PyList [PyStr ''y'', PyStr ''z'']))"
proof -
  have m: "(4, ''gamma'', PyList [PyStr ''y'', PyStr ''z''])
      \<in> set (fst (check_with_openai stub_openai stub_loads
                     [(0, ''alpha''), (2, ''beta''), (4, ''gamma'')] ''gpt'' ''find claims'' ''key''))"
    by (simp add: check_with_openai_def try_chunk_def stub_openai_def stub_loads_def
        get_def getitem_def)
  from record_passthrough[OF m] m show ?thesis by blast
qed

section \<open>Properties of whole-document mode\<close>

text \<open>
  C5. When the call raises, when the reply is not valid JSON, and when the parsed value
  is not a JSON object, whole-document mode prints the error and returns \<open>None\<close>. When
  the reply parses as an object it prints nothing and returns the value of the \<open>claims\<close>
  field, or the empty list when the field is absent. \<open>None\<close> is not the empty list.
\<close>

theorem whole_document_result:
  "(openai api_key model (system_prompt @ ''\<newline>\<newline>'' @ doc) 300 = Inl e \<longrightarrow>
      check_doc_with_openai openai loads doc model system_prompt api_key = (PyNone, [e]))
 \<and> (openai api_key model (system_prompt @ ''\<newline>\<newline>'' @ doc) 300 = Inr reply
      \<and> loads reply = Inl e \<longrightarrow>
      check_doc_with_openai openai loads doc model system_prompt api_key = (PyNone, [e]))
 \<and> (openai api_key model (system_prompt @ ''\<newline>\<newline>'' @ doc) 300 = Inr reply
      \<and> loads reply = Inr as_json \<and> (\<forall>kvs. as_json \<noteq> PyDict kvs) \<longrightarrow>
      check_doc_with_openai openai loads doc model system_prompt api_key
        = (PyNone, [AttributeError]))
 \<and> (openai api_key model (system_prompt @ ''\<newline>\<newline>'' @ doc) 300 = Inr reply
      \<and> loads reply = Inr (PyDict kvs) \<longrightarrow>
      check_doc_with_openai openai loads doc model system_prompt api_key
        = (case map_of kvs ''claims'' of Some claims \<Rightarrow> claims | None \<Rightarrow> PyList [], []))
 \<and> PyNone \<noteq> PyList []"
proof -
  have nd: "get as_json ''claims'' (PyList []) = Inl AttributeError"
    if "\<forall>kvs. as_json \<noteq> PyDict kvs"
    using that by (cases as_json) (simp_all add: get_def)
  have d: "get (PyDict kvs) ''claims'' (PyList [])
      = Inr (case map_of kvs ''claims'' of Some claims \<Rightarrow> claims | None \<Rightarrow> PyList [])"
    by (simp add: get_def)
  show ?thesis
    by (auto simp: check_doc_with_openai_def Let_def nd d)
qed

theorem whole_document_result_witness:
  "check_doc_with_openai stub_openai stub_loads ''beta'' ''gpt'' ''find claims'' ''key''
     = (PyNone, [APIError ''timeout''])
 \<and> check_doc_with_openai stub_openai stub_loads ''eta'' ''gpt'' ''find claims'' ''key''
     = (PyNone, [JSONDecodeError])
 \<and> check_doc_with_openai stub_openai stub_loads ''zeta'' ''gpt'' ''find claims'' ''key''
     = (PyNone, [AttributeError])
 \<and> check_doc_with_openai stub_openai stub_loads ''alpha'' ''gpt'' ''find claims'' ''key''
     = (PyList [PyStr ''x''], [])
 \<and> check_doc_with_openai stub_openai stub_loads ''epsilon'' ''gpt'' ''find claims'' ''key''
     = (PyList [], [])"
proof -
  note r = whole_document_result[of stub_openai "''key''" "''gpt''" "''find claims''" _ _
      stub_loads]
  have b: "stub_openai ''key'' ''gpt'' (''find claims'' @ ''\<newline>\<newline>'' @ ''beta'') 300
      = Inl (APIError ''timeout'')"
    by (simp add: stub_openai_def)
  have e: "stub_openai ''key'' ''gpt'' (''find claims'' @ ''\<newline>\<newline>'' @ ''eta'') 300
      = Inr ''no json here'' \<and> stub_loads ''no json here'' = Inl JSONDecodeError"
    by (simp add: stub_openai_def stub_loads_def)
  have z: "stub_openai ''key'' ''gpt'' (''find claims'' @ ''\<newline>\<newline>'' @ ''zeta'') 300
      = Inr ''a list'' \<and> stub_loads ''a list'' = Inr (PyList [PyInt 1])
      \<and> (\<forall>kvs. PyList [PyInt 1] \<noteq> PyDict kvs)"
    by (simp add: stub_openai_def stub_loads_def)
  have a: "stub_openai ''key'' ''gpt'' (''find claims'' @ ''\<newline>\<newline>'' @ ''alpha'') 300
      = Inr ''one claim''
      \<and> stub_loads ''one claim'' = Inr (PyDict [(''claims'', PyList [PyStr ''x''])])"
    by (simp add: stub_openai_def stub_loads_def)
  have p: "stub_openai ''key'' ''gpt'' (''find claims'' @ ''\<newline>\<newline>'' @ ''epsilon'') 300
      = Inr ''empty object'' \<and> stub_loads ''empty object'' = Inr (PyDict [])"
    by (simp add: stub_openai_def stub_loads_def)
  from r[THEN conjunct1, rule_format, OF b]
  have 1: "check_doc_with_openai stub_openai stub_loads ''beta'' ''gpt'' ''find claims'' ''key''
     = (PyNone, [APIError ''timeout''])" .
  from r[THEN conjunct2, THEN conjunct1, rule_format, OF e]
  have 2: "check_doc_with_openai stub_openai stub_loads ''eta'' ''gpt'' ''find claims'' ''key''
     = (PyNone, [JSONDecodeError])" .
  from r[THEN conjunct2, THEN conjunct2, THEN conjunct1, rule_format, OF z]
  have 3: "check_doc_with_openai stub_openai stub_loads ''zeta'' ''gpt'' ''find claims'' ''key''
     = (PyNone, [AttributeError])" .
  from r[THEN conjunct2, THEN conjunct2, THEN conjunct2, THEN conjunct1, rule_format, OF a]
  have 4: "check_doc_with_openai stub_openai stub_loads ''alpha'' ''gpt'' ''find claims'' ''key''
     = (PyList [PyStr ''x''], [])" by simp
  from r[THEN conjunct2, THEN conjunct2, THEN conjunct2, THEN conjunct1, rule_format, OF p]
  have 5: "check_doc_with_openai stub_openai stub_loads ''epsilon'' ''gpt'' ''find claims'' ''key''
     = (PyList [], [])" by simp
  from 1 2 3 4 5 show ?thesis by blast
qed

end
